theory Spec2Isabelle
  imports Complex_Main "HOL-Library.Word" "HOL-Library.Sublist"
begin

section \<open>Postport: the page component \<^verbatim>\<open>src/routes/+page.svelte\<close>\<close>

text \<open>
  The component holds its state in module-level variables, talks to a chat endpoint in
  \<^verbatim>\<open>sendMessage\<close>, cuts a fenced JSON block out of the reply with a regular expression,
  turns the parsed records into pins, and drives a map widget from three reactive
  statements. The embedding follows that order: strings and the regular expression,
  JavaScript values, the pin mapping, \<^verbatim>\<open>sendMessage\<close>, the script loader and the
  reactive statements.
\<close>

subsection \<open>Strings\<close>

text \<open>
  A JavaScript string is a sequence of 16-bit code units; \<^verbatim>\<open>trim\<close> and the regular
  expression (which has no \<^verbatim>\<open>u\<close> flag) both work on code units.
\<close>

type_synonym jschar = "16 word"
type_synonym jsstring = "jschar list"

definition lit :: "string \<Rightarrow> jsstring" where
  "lit s = map of_char s"

text \<open>
  The class \<^verbatim>\<open>\s\<close> of the regular expression and the characters removed by
  \<^verbatim>\<open>String.prototype.trim\<close> are the same set: ECMAScript's WhiteSpace and
  LineTerminator code points (TAB, LF, VT, FF, CR, SP, NBSP, the Unicode space
  separators, LS, PS and the byte order mark).
\<close>

definition is_ws :: "jschar \<Rightarrow> bool" where
  "is_ws c \<longleftrightarrow>
     c = 0x9 \<or> c = 0xA \<or> c = 0xB \<or> c = 0xC \<or> c = 0xD \<or> c = 0x20 \<or> c = 0xA0 \<or>
     c = 0x1680 \<or> (0x2000 \<le> c \<and> c \<le> 0x200A) \<or> c = 0x2028 \<or> c = 0x2029 \<or>
     c = 0x202F \<or> c = 0x205F \<or> c = 0x3000 \<or> c = 0xFEFF"

definition trim :: "jsstring \<Rightarrow> jsstring" where
  "trim s = rev (dropWhile is_ws (rev (dropWhile is_ws s)))"

fun strip_prefix :: "'a list \<Rightarrow> 'a list \<Rightarrow> 'a list option" where
  "strip_prefix [] ys = Some ys"
| "strip_prefix (x # xs) [] = None"
| "strip_prefix (x # xs) (y # ys) = (if x = y then strip_prefix xs ys else None)"

subsection \<open>The regular expression of line 38\<close>

text \<open>
  \<^verbatim>\<open>/```json[\s\r\n]*([\s\S]*?)```/\<close>: the opening fence, a greedy run of whitespace, a
  lazy capture of anything, the closing fence. The matcher below is the backtracking
  search of the expression: \<open>lazy_until_fence\<close> tries the closing fence at the
  current position before it lets the capture take one more code unit;
  \<open>ws_then_body\<close> lets the greedy class take a whitespace unit first and falls back
  to giving it to the capture when the rest then fails; \<open>codeBlockRegex\<close> tries each
  start position from the left. The result is the text before the match, the
  capture group 1 and the text after the match.
\<close>

definition fence_open :: jsstring where
  "fence_open = lit ''```json''"

definition fence_close :: jsstring where
  "fence_close = lit ''```''"

fun lazy_until_fence :: "jsstring \<Rightarrow> (jsstring \<times> jsstring) option" where
  "lazy_until_fence [] = None"
| "lazy_until_fence (c # cs) =
     (case strip_prefix fence_close (c # cs) of
        Some r \<Rightarrow> Some ([], r)
      | None \<Rightarrow> map_option (\<lambda>(g, r). (c # g, r)) (lazy_until_fence cs))"

fun ws_then_body :: "jsstring \<Rightarrow> (jsstring \<times> jsstring) option" where
  "ws_then_body [] = lazy_until_fence []"
| "ws_then_body (c # cs) =
     (if is_ws c
      then (case ws_then_body cs of
              Some m \<Rightarrow> Some m
            | None \<Rightarrow> lazy_until_fence (c # cs))
      else lazy_until_fence (c # cs))"

definition match_here :: "jsstring \<Rightarrow> (jsstring \<times> jsstring) option" where
  "match_here s =
     (case strip_prefix fence_open s of
        None \<Rightarrow> None
      | Some r \<Rightarrow> ws_then_body r)"

fun codeBlockRegex :: "jsstring \<Rightarrow> (jsstring \<times> jsstring \<times> jsstring) option" where
  "codeBlockRegex [] = map_option (\<lambda>(g, r). ([], g, r)) (match_here [])"
| "codeBlockRegex (c # cs) =
     (case match_here (c # cs) of
        Some (g, r) \<Rightarrow> Some ([], g, r)
      | None \<Rightarrow> map_option (\<lambda>(p, g, r). (c # p, g, r)) (codeBlockRegex cs))"

text \<open>
  Lines 39 to 45: \<^verbatim>\<open>markdownPart\<close> and \<^verbatim>\<open>jsonText\<close>. Without a match the text is
  kept as it is and \<^verbatim>\<open>jsonText\<close> stays \<^verbatim>\<open>null\<close>; with one, \<^verbatim>\<open>replace\<close> removes
  the (first) match and the rest is trimmed.
\<close>

definition split_response :: "jsstring \<Rightarrow> jsstring \<times> jsstring option" where
  "split_response text =
     (case codeBlockRegex text of
        None \<Rightarrow> (text, None)
      | Some (before, g, after) \<Rightarrow> (trim (before @ after), Some g))"

text \<open>
  The spec's wording, for comparison: a text contains a fenced JSON block when an opening
  fence occurs in it with a closing fence somewhere after it.
\<close>

definition has_fenced_json :: "jsstring \<Rightarrow> bool" where
  "has_fenced_json text \<longleftrightarrow>
     (\<exists>i \<in> set [0 ..< length text].
        prefix fence_open (drop i text) \<and>
        sublist fence_close (drop (length fence_open) (drop i text)))"

subsection \<open>JavaScript values\<close>

text \<open>
  What \<^verbatim>\<open>res.json()\<close> and \<^verbatim>\<open>JSON.parse\<close> return, and \<^verbatim>\<open>undefined\<close>, which property
  reads add. A number is a double: the code never computes with one, it only tests it for
  truth, so a finite double is carried by its value (both zeros are \<open>Fin 0\<close>). An object
  is the list of its own properties, read by key.
\<close>

datatype jsnum = Fin rat | PosInf | NegInf | NaN

datatype jsval =
    JUndefined
  | JNull
  | JBool bool
  | JNum jsnum
  | JStr jsstring
  | JArr "jsval list"
  | JObj "(jsstring \<times> jsval) list"

datatype js_error = TypeError | SyntaxError

fun truthy :: "jsval \<Rightarrow> bool" where
  "truthy JUndefined = False"
| "truthy JNull = False"
| "truthy (JBool b) = b"
| "truthy (JNum n) = (n \<noteq> Fin 0 \<and> n \<noteq> NaN)"
| "truthy (JStr s) = (s \<noteq> [])"
| "truthy (JArr xs) = True"
| "truthy (JObj kvs) = True"

fun nullish :: "jsval \<Rightarrow> bool" where
  "nullish JUndefined = True"
| "nullish JNull = True"
| "nullish v = False"

text \<open>
  \<open>read_prop v k\<close> is the read \<^verbatim>\<open>v.k\<close> on a value that is neither \<^verbatim>\<open>null\<close> nor
  \<^verbatim>\<open>undefined\<close>, for the keys the component reads (\<^verbatim>\<open>candidates\<close>, \<^verbatim>\<open>content\<close>,
  \<^verbatim>\<open>parts\<close>, \<^verbatim>\<open>text\<close>, \<^verbatim>\<open>lat\<close>, \<^verbatim>\<open>latitude\<close>, \<^verbatim>\<open>lng\<close>, \<^verbatim>\<open>longitude\<close>,
  \<^verbatim>\<open>label\<close>, \<^verbatim>\<open>name\<close>, \<^verbatim>\<open>icon\<close>, \<^verbatim>\<open>description\<close>): none of them is a property of a
  boolean, a number, a string or an array, nor of \<^verbatim>\<open>Object.prototype\<close>.
  \<open>elem0 v\<close> is the read \<^verbatim>\<open>v[0]\<close>.
\<close>

fun read_prop :: "jsval \<Rightarrow> jsstring \<Rightarrow> jsval" where
  "read_prop (JObj kvs) k = (case map_of kvs k of None \<Rightarrow> JUndefined | Some v \<Rightarrow> v)"
| "read_prop v k = JUndefined"

fun elem0 :: "jsval \<Rightarrow> jsval" where
  "elem0 (JArr []) = JUndefined"
| "elem0 (JArr (x # xs)) = x"
| "elem0 (JStr []) = JUndefined"
| "elem0 (JStr (c # cs)) = JStr [c]"
| "elem0 (JObj kvs) = read_prop (JObj kvs) (lit ''0'')"
| "elem0 v = JUndefined"

definition get :: "jsval \<Rightarrow> jsstring \<Rightarrow> js_error + jsval" where
  "get v k = (if nullish v then Inl TypeError else Inr (read_prop v k))"

definition opt_get :: "jsval \<Rightarrow> jsstring \<Rightarrow> jsval" where
  "opt_get v k = (if nullish v then JUndefined else read_prop v k)"

definition opt_elem0 :: "jsval \<Rightarrow> jsval" where
  "opt_elem0 v = (if nullish v then JUndefined else elem0 v)"

definition coalesce :: "jsval \<Rightarrow> jsval \<Rightarrow> jsval" where
  "coalesce a b = (if nullish a then b else a)"

subsection \<open>The component's variables\<close>

datatype screen = Home | Chat | MapScreen | Planner

datatype role = User | Assistant

record ChatMessage =
  role :: role
  content :: jsstring
  markdown :: "bool option"

record pin =
  lat :: jsval
  lng :: jsval
  label :: jsval
  icon :: jsval
  description :: jsval

text \<open>A marker of the widget: its position, the map instance it is on and its label.\<close>

record marker =
  marker_lat :: jsval
  marker_lng :: jsval
  marker_map :: nat
  marker_label :: jsval

text \<open>
  A callback waiting in the microtask queue: the function given to \<^verbatim>\<open>tick().then\<close>
  (lines 127 to 137), or the rest of that function after \<^verbatim>\<open>await loadGoogleMaps()\<close>
  (lines 130 to 135).
\<close>

datatype task = TickThen | InitResume

text \<open>
  The page: the component's variables under their own names (\<open>map_inst\<close> is the variable
  \<^verbatim>\<open>map\<close>; a map instance and a DOM element are named by a number), the part of the
  browser the code reads and writes (\<open>script_tag\<close>: a \<^verbatim>\<open>script[data-google-maps]\<close> is
  in the document; \<open>google_maps\<close>: \<^verbatim>\<open>window.google.maps\<close> is defined; \<open>gmapsLoaded\<close>:
  the window flag of line 95; \<open>listeners\<close>: the \<^verbatim>\<open>gmaps:loaded\<close> listeners of line 86
  whose promise is awaited; \<open>onload_waiting\<close>: the awaited promises that the script's
  \<^verbatim>\<open>onload\<close> resolves; \<open>microtasks\<close>: the queue of callbacks), and counters of what has
  been done (\<open>fetches\<close>: the user messages posted to the chat endpoint; \<open>in_flight\<close>:
  the requests not yet answered; \<open>script_requests\<close>: the script elements appended;
  \<open>loader_calls\<close>: the calls of \<^verbatim>\<open>loadGoogleMaps\<close>; \<open>maps_created\<close>: the map
  instances constructed; \<open>elements_created\<close>: the map panes mounted).
\<close>

record page =
  currentScreen :: screen
  chatInput :: jsstring
  chatMessages :: "ChatMessage list"
  isLoading :: bool
  map_inst :: "nat option"
  mapElement :: "nat option"
  mapPins :: "pin list"
  mapMarkers :: "marker list"
  mapInitialized :: bool
  script_tag :: bool
  script_failed :: bool
  google_maps :: bool
  gmapsLoaded :: bool
  listeners :: nat
  onload_waiting :: nat
  microtasks :: "task list"
  fetches :: "jsstring list"
  in_flight :: nat
  script_requests :: nat
  loader_calls :: nat
  maps_created :: nat
  elements_created :: nat

definition init_page :: page where
  "init_page =
     \<lparr>currentScreen = Home, chatInput = [], chatMessages = [], isLoading = False,
      map_inst = None, mapElement = None, mapPins = [], mapMarkers = [],
      mapInitialized = False, script_tag = False, script_failed = False,
      google_maps = False, gmapsLoaded = False, listeners = 0, onload_waiting = 0,
      microtasks = [], fetches = [], in_flight = 0, script_requests = 0,
      loader_calls = 0, maps_created = 0, elements_created = 0\<rparr>"

subsection \<open>The pins of a reply (lines 49 to 64)\<close>

text \<open>Line 52, the test that guards the mapping.\<close>

definition pins_guard :: "jsval \<Rightarrow> bool" where
  "pins_guard locations =
     (case locations of
        JArr xs \<Rightarrow>
          (truthy (opt_get (elem0 locations) (lit ''lat'')) \<and>
           truthy (opt_get (elem0 locations) (lit ''lng''))) \<or>
          (truthy (opt_get (elem0 locations) (lit ''latitude'')) \<and>
           truthy (opt_get (elem0 locations) (lit ''longitude'')))
      | _ \<Rightarrow> False)"

text \<open>Lines 54 to 60, the function mapped over the array; reading a key of \<^verbatim>\<open>null\<close> throws.\<close>

definition to_pin :: "jsval \<Rightarrow> js_error + pin" where
  "to_pin loc =
     (if nullish loc then Inl TypeError
      else Inr \<lparr>lat = coalesce (read_prop loc (lit ''lat'')) (read_prop loc (lit ''latitude'')),
                lng = coalesce (read_prop loc (lit ''lng'')) (read_prop loc (lit ''longitude'')),
                label = coalesce (read_prop loc (lit ''label'')) (read_prop loc (lit ''name'')),
                icon = read_prop loc (lit ''icon''),
                description = read_prop loc (lit ''description'')\<rparr>)"

fun map_to_pin :: "jsval list \<Rightarrow> js_error + pin list" where
  "map_to_pin [] = Inr []"
| "map_to_pin (loc # locs) =
     (case to_pin loc of
        Inl e \<Rightarrow> Inl e
      | Inr p \<Rightarrow> (case map_to_pin locs of Inl e \<Rightarrow> Inl e | Inr ps \<Rightarrow> Inr (p # ps)))"

text \<open>
  Lines 50 to 63: the argument \<^verbatim>\<open>setMapPins\<close> is called with, or \<open>None\<close> when it is not
  called. \<open>parse\<close> is the platform's \<^verbatim>\<open>JSON.parse\<close>; whatever is thrown inside the
  \<^verbatim>\<open>try\<close> is swallowed by the empty \<^verbatim>\<open>catch\<close>.
\<close>

definition pins_of_payload :: "(jsstring \<Rightarrow> js_error + jsval) \<Rightarrow> jsstring \<Rightarrow> pin list option" where
  "pins_of_payload parse jsonText =
     (case parse jsonText of
        Inl e \<Rightarrow> None
      | Inr locations \<Rightarrow>
          if pins_guard locations
          then (case locations of
                  JArr locs \<Rightarrow> (case map_to_pin locs of Inl e \<Rightarrow> None | Inr pins \<Rightarrow> Some pins)
                | _ \<Rightarrow> None)
          else None)"

definition setMapPins :: "pin list \<Rightarrow> page \<Rightarrow> page" where
  "setMapPins newPins p = p\<lparr>mapPins := newPins\<rparr>"

subsection \<open>\<^verbatim>\<open>sendMessage\<close> (lines 17 to 69)\<close>

text \<open>What the two awaits of lines 25 and 35 give back.\<close>

datatype fetch_result = NetworkError | BodyNotJson | Body jsval

text \<open>Line 36. Reading \<^verbatim>\<open>candidates\<close> of \<^verbatim>\<open>null\<close> throws; the rest of the chain is optional.\<close>

definition response_text :: "jsval \<Rightarrow> js_error + jsval" where
  "response_text data =
     (case get data (lit ''candidates'') of
        Inl e \<Rightarrow> Inl e
      | Inr candidates \<Rightarrow>
          let t = opt_get (opt_elem0 (opt_get (opt_get (opt_elem0 candidates)
                    (lit ''content'')) (lit ''parts''))) (lit ''text'')
          in Inr (if truthy t then t else JStr (lit ''[No response]'')))"

text \<open>Lines 18 to 34: up to the call of \<^verbatim>\<open>fetch\<close>.\<close>

definition sendMessage_begin :: "page \<Rightarrow> page" where
  "sendMessage_begin p =
     (if trim (chatInput p) = [] then p
      else p\<lparr>chatMessages := chatMessages p @
                  [\<lparr>role = User, content = chatInput p, markdown = None\<rparr>],
              chatInput := [],
              isLoading := True,
              fetches := fetches p @ [chatInput p],
              in_flight := Suc (in_flight p)\<rparr>)"

text \<open>Line 66, the handler of the outer \<^verbatim>\<open>catch\<close>.\<close>

definition catch_error :: "page \<Rightarrow> page" where
  "catch_error p =
     p\<lparr>chatMessages := chatMessages p @
          [\<lparr>role = Assistant, content = lit ''[Error contacting Gemini API]'',
            markdown = None\<rparr>]\<rparr>"

text \<open>Lines 38 to 64, for a reply text that is a string.\<close>

definition handle_text :: "(jsstring \<Rightarrow> js_error + jsval) \<Rightarrow> jsstring \<Rightarrow> page \<Rightarrow> page" where
  "handle_text parse text p =
     (let (markdownPart, jsonText) = split_response text;
          p1 = p\<lparr>chatMessages := chatMessages p @
                 [\<lparr>role = Assistant, content = markdownPart, markdown = Some True\<rparr>]\<rparr>
      in case jsonText of
           None \<Rightarrow> p1
         | Some j \<Rightarrow>
             if j = [] then p1
             else (case pins_of_payload parse j of
                     None \<Rightarrow> p1
                   | Some pins \<Rightarrow> setMapPins pins p1))"

text \<open>
  Lines 35 to 68: after the awaits. A reply text that is not a string has no
  \<^verbatim>\<open>match\<close> method, and the call throws into the outer \<^verbatim>\<open>catch\<close>.
\<close>

definition sendMessage_resume ::
  "(jsstring \<Rightarrow> js_error + jsval) \<Rightarrow> fetch_result \<Rightarrow> page \<Rightarrow> page" where
  "sendMessage_resume parse r p =
     (let p1 = (case r of
                  NetworkError \<Rightarrow> catch_error p
                | BodyNotJson \<Rightarrow> catch_error p
                | Body data \<Rightarrow>
                    (case response_text data of
                       Inl e \<Rightarrow> catch_error p
                     | Inr (JStr text) \<Rightarrow> handle_text parse text p
                     | Inr v \<Rightarrow> catch_error p))
      in p1\<lparr>isLoading := False, in_flight := in_flight p1 - 1\<rparr>)"

text \<open>The whole call, when nothing else runs between the request and its answer.\<close>

definition sendMessage ::
  "(jsstring \<Rightarrow> js_error + jsval) \<Rightarrow> fetch_result \<Rightarrow> page \<Rightarrow> page" where
  "sendMessage parse r p =
     (if trim (chatInput p) = [] then p
      else sendMessage_resume parse r (sendMessage_begin p))"

subsection \<open>The map pane (lines 72 to 142)\<close>

text \<open>
  What the promise of \<^verbatim>\<open>loadGoogleMaps\<close> is when the call returns: resolved with the
  maps object (lines 80 and 85), to be resolved by the \<^verbatim>\<open>gmaps:loaded\<close> listener of
  line 86, to be resolved by the \<^verbatim>\<open>onload\<close> of the script the call appended (line 97),
  or without a maps object (line 85 reached with \<^verbatim>\<open>window.google.maps\<close> undefined, where
  the read throws or gives \<^verbatim>\<open>undefined\<close>).
\<close>

datatype loading = Resolved | OnEvent | OnLoad | NoMaps

definition loadGoogleMaps :: "page \<Rightarrow> loading \<times> page" where
  "loadGoogleMaps p0 =
     (let p = p0\<lparr>loader_calls := Suc (loader_calls p0)\<rparr>
      in if google_maps p then (Resolved, p)
         else if script_tag p
         then (if gmapsLoaded p then (NoMaps, p)
               else (OnEvent, p\<lparr>listeners := Suc (listeners p)\<rparr>))
         else (OnLoad, p\<lparr>script_tag := True,
                         script_requests := Suc (script_requests p),
                         onload_waiting := Suc (onload_waiting p)\<rparr>))"

text \<open>
  Lines 104 to 118. The old markers are taken off the map and dropped, and one marker is
  made for each pin on the current map instance.
\<close>

definition marker_of :: "nat \<Rightarrow> pin \<Rightarrow> marker" where
  "marker_of m pn =
     \<lparr>marker_lat = lat pn, marker_lng = lng pn, marker_map = m,
      marker_label = (if truthy (label pn) then label pn else JUndefined)\<rparr>"

definition updateMapPins :: "page \<Rightarrow> page" where
  "updateMapPins p =
     (case map_inst p of
        None \<Rightarrow> p
      | Some m \<Rightarrow> p\<lparr>mapMarkers := map (marker_of m) (mapPins p)\<rparr>)"

text \<open>
  The three reactive statements. Svelte runs such a statement again, before the next
  update of the DOM, when a variable that occurs in it has been assigned since the last
  run; \<open>dirty\<close> is the set of those variables. An assignment made by a reactive
  statement does not start another round. The three statements do not read what another
  one of them writes in the same round, so their order does not matter; they are run in
  the order of the source.
\<close>

datatype var = V_currentScreen | V_map | V_mapElement | V_mapInitialized

text \<open>Line 124.\<close>

definition reactive_markers :: "var set \<Rightarrow> page \<Rightarrow> page" where
  "reactive_markers dirty p =
     (if V_map \<in> dirty \<or> V_currentScreen \<in> dirty
      then (if map_inst p \<noteq> None \<and> currentScreen p = MapScreen then updateMapPins p else p)
      else p)"

text \<open>
  Lines 126 to 138. The statement reads \<^verbatim>\<open>currentScreen\<close> and \<^verbatim>\<open>mapInitialized\<close> in
  its test, and \<^verbatim>\<open>mapElement\<close> and \<^verbatim>\<open>mapInitialized\<close> in its callback; it runs
  again when one of the three has been assigned. Running it only queues the callback.
\<close>

definition reactive_init :: "var set \<Rightarrow> page \<Rightarrow> page" where
  "reactive_init dirty p =
     (if V_currentScreen \<in> dirty \<or> V_mapInitialized \<in> dirty \<or> V_mapElement \<in> dirty
      then (if currentScreen p = MapScreen \<and> \<not> mapInitialized p
            then p\<lparr>microtasks := microtasks p @ [TickThen]\<rparr>
            else p)
      else p)"

text \<open>Lines 140 to 142.\<close>

definition reactive_reset :: "var set \<Rightarrow> page \<Rightarrow> page" where
  "reactive_reset dirty p =
     (if V_currentScreen \<in> dirty
      then (if currentScreen p \<noteq> MapScreen then p\<lparr>mapInitialized := False\<rparr> else p)
      else p)"

definition run_reactive :: "var set \<Rightarrow> page \<Rightarrow> page" where
  "run_reactive dirty p = reactive_reset dirty (reactive_init dirty (reactive_markers dirty p))"

text \<open>
  Lines 128 and 129: the callback of \<^verbatim>\<open>tick().then\<close>, up to the \<^verbatim>\<open>await\<close>. When the
  promise is already resolved the rest of the callback is queued; otherwise it waits with
  the listener or with the script's \<^verbatim>\<open>onload\<close>, where \<open>loadGoogleMaps\<close> has counted
  it; without a maps object the callback ends in a rejection nobody handles.
\<close>

definition tick_callback :: "page \<Rightarrow> page" where
  "tick_callback p =
     (if mapElement p \<noteq> None \<and> \<not> mapInitialized p
      then (case loadGoogleMaps p of
              (Resolved, p1) \<Rightarrow> p1\<lparr>microtasks := microtasks p1 @ [InitResume]\<rparr>
            | (w, p1) \<Rightarrow> p1)
      else p)"

text \<open>
  Lines 130 to 135, and the round of reactive statements that the assignments to
  \<^verbatim>\<open>map\<close> and \<^verbatim>\<open>mapInitialized\<close> start. The widget's constructor throws when it is
  given no element (the pane was left while the script was loading); the callback then
  ends there.
\<close>

definition init_resume :: "page \<Rightarrow> page" where
  "init_resume p =
     (case mapElement p of
        None \<Rightarrow> p
      | Some el \<Rightarrow>
          let p1 = p\<lparr>map_inst := Some (maps_created p), maps_created := Suc (maps_created p)\<rparr>;
              p2 = updateMapPins p1;
              p3 = p2\<lparr>mapInitialized := True\<rparr>
          in run_reactive {V_map, V_mapInitialized} p3)"

fun run_task :: "task \<Rightarrow> page \<Rightarrow> page" where
  "run_task TickThen p = tick_callback p"
| "run_task InitResume p = init_resume p"

definition run_microtask :: "page \<Rightarrow> page" where
  "run_microtask p =
     (case microtasks p of
        [] \<Rightarrow> p
      | t # ts \<Rightarrow> run_task t (p\<lparr>microtasks := ts\<rparr>))"

text \<open>
  A click on a navigation button (lines 146 to 149) and the update it starts: the
  reactive statements run for \<^verbatim>\<open>currentScreen\<close>, the DOM is patched (the map pane of
  line 194 is mounted or removed, and \<^verbatim>\<open>bind:this\<close> assigns \<^verbatim>\<open>mapElement\<close>), and the
  reactive statements run again for \<^verbatim>\<open>mapElement\<close>. Assigning the screen it already has
  changes nothing.
\<close>

definition click :: "screen \<Rightarrow> page \<Rightarrow> page" where
  "click s p =
     (if s = currentScreen p then p
      else let p1 = run_reactive {V_currentScreen} (p\<lparr>currentScreen := s\<rparr>);
               p2 = (if s = MapScreen
                     then p1\<lparr>mapElement := Some (elements_created p1),
                             elements_created := Suc (elements_created p1)\<rparr>
                     else if currentScreen p = MapScreen then p1\<lparr>mapElement := None\<rparr>
                     else p1)
           in if mapElement p2 \<noteq> mapElement p1 then run_reactive {V_mapElement} p2 else p2)"

text \<open>
  Lines 94 to 98, the script's \<^verbatim>\<open>onload\<close>: the script has run and defined
  \<^verbatim>\<open>window.google.maps\<close>; the flag is set, the event wakes the listeners and the
  handler resolves its own promise. Line 99, \<^verbatim>\<open>onerror\<close>: the promise is rejected and
  the callback awaiting it ends. A script fires one of the two, once.
\<close>

definition script_load :: "page \<Rightarrow> page" where
  "script_load p =
     (if script_tag p \<and> \<not> gmapsLoaded p \<and> \<not> script_failed p
      then p\<lparr>google_maps := True, gmapsLoaded := True,
             microtasks := microtasks p @ replicate (listeners p) InitResume
                             @ replicate (onload_waiting p) InitResume,
             listeners := 0, onload_waiting := 0\<rparr>
      else p)"

definition script_error :: "page \<Rightarrow> page" where
  "script_error p =
     (if script_tag p \<and> \<not> gmapsLoaded p \<and> \<not> script_failed p
      then p\<lparr>script_failed := True, onload_waiting := 0\<rparr>
      else p)"

subsection \<open>Executions of the page\<close>

datatype event =
    Click screen
  | Input jsstring
  | Submit
  | Response fetch_result
  | Microtask
  | ScriptLoad
  | ScriptError

fun step :: "(jsstring \<Rightarrow> js_error + jsval) \<Rightarrow> event \<Rightarrow> page \<Rightarrow> page" where
  "step parse (Click s) p = click s p"
| "step parse (Input s) p = p\<lparr>chatInput := s\<rparr>"
| "step parse Submit p = sendMessage_begin p"
| "step parse (Response r) p = (if in_flight p = 0 then p else sendMessage_resume parse r p)"
| "step parse Microtask p = run_microtask p"
| "step parse ScriptLoad p = script_load p"
| "step parse ScriptError p = script_error p"

fun run :: "(jsstring \<Rightarrow> js_error + jsval) \<Rightarrow> event list \<Rightarrow> page \<Rightarrow> page" where
  "run parse [] p = p"
| "run parse (e # es) p = run parse es (step parse e p)"

text \<open>
  The microtask queue is run until it is empty before the browser handles the next
  event. That always ends: the callback of \<^verbatim>\<open>tick().then\<close> queues at most the rest of
  itself, and the rest queues nothing.
\<close>

fun weight :: "task \<Rightarrow> nat" where
  "weight TickThen = 2"
| "weight InitResume = 1"

function drain :: "page \<Rightarrow> page" where
  "drain p = (if microtasks p = [] then p else drain (run_microtask p))"
  by pat_completeness auto
termination
proof (relation "measure (\<lambda>p. sum_list (map weight (microtasks p)))")
  show "wf (measure (\<lambda>p. sum_list (map weight (microtasks p))))" by simp
next
  fix p :: page
  assume ne: "microtasks p \<noteq> []"
  then obtain t ts where q: "microtasks p = t # ts" by (cases "microtasks p") auto
  have tick: "sum_list (map weight (microtasks (tick_callback (p\<lparr>microtasks := ts\<rparr>))))
                \<le> Suc (sum_list (map weight ts))"
    by (simp add: tick_callback_def loadGoogleMaps_def Let_def)
  have resume: "microtasks (init_resume (p\<lparr>microtasks := ts\<rparr>)) = ts"
    by (simp add: init_resume_def run_reactive_def reactive_reset_def reactive_init_def
          reactive_markers_def updateMapPins_def Let_def split: option.split)
  have "sum_list (map weight (microtasks (run_microtask p)))
          < sum_list (map weight (microtasks p))"
  proof (cases t)
    case TickThen
    then show ?thesis using tick by (simp add: run_microtask_def q)
  next
    case InitResume
    then show ?thesis using resume by (simp add: run_microtask_def q)
  qed
  then show "(run_microtask p, p) \<in> measure (\<lambda>p. sum_list (map weight (microtasks p)))"
    by simp
qed

declare drain.simps [simp del]

subsection \<open>Words of the specification, and sample inputs\<close>

text \<open>
  A record has a field when it is an object with that key. A latitude-like field is
  \<^verbatim>\<open>lat\<close> or \<^verbatim>\<open>latitude\<close>, a longitude-like field is \<^verbatim>\<open>lng\<close> or \<^verbatim>\<open>longitude\<close>.
\<close>

fun has_field :: "jsval \<Rightarrow> jsstring \<Rightarrow> bool" where
  "has_field (JObj kvs) k = (map_of kvs k \<noteq> None)"
| "has_field v k = False"

definition lacks_latitude :: "jsval \<Rightarrow> bool" where
  "lacks_latitude v \<longleftrightarrow> \<not> has_field v (lit ''lat'') \<and> \<not> has_field v (lit ''latitude'')"

definition lacks_longitude :: "jsval \<Rightarrow> bool" where
  "lacks_longitude v \<longleftrightarrow> \<not> has_field v (lit ''lng'') \<and> \<not> has_field v (lit ''longitude'')"

text \<open>
  Stand-ins for \<^verbatim>\<open>JSON.parse\<close> in the examples: one that rejects every text, and one
  that reads the four payloads the examples use as JSON does and rejects the rest.
\<close>

definition reject_all :: "jsstring \<Rightarrow> js_error + jsval" where
  "reject_all s = Inl SyntaxError"

definition pin_A :: jsval where
  "pin_A = JObj [(lit ''lat'', JNum (Fin 1)), (lit ''lng'', JNum (Fin 2)),
                 (lit ''label'', JStr (lit ''A''))]"

definition payload_A :: jsstring where
  "payload_A = lit ''[{\"lat\":1,\"lng\":2,\"label\":\"A\"}]''"

definition parse_sample :: "jsstring \<Rightarrow> js_error + jsval" where
  "parse_sample s =
     (if s = payload_A then Inr (JArr [pin_A])
      else if s = lit ''[{\"label\":\"A\"}]''
        then Inr (JArr [JObj [(lit ''label'', JStr (lit ''A''))]])
      else if s = lit ''[{\"lat\":1,\"lng\":2,\"label\":\"A\"},{\"label\":\"B\"}]''
        then Inr (JArr [pin_A, JObj [(lit ''label'', JStr (lit ''B''))]])
      else if s = lit ''[{\"lat\":1,\"lng\":2,\"label\":\"A\"},null]''
        then Inr (JArr [pin_A, JNull])
      else Inl SyntaxError)"

subsection \<open>The loader's invariant, and two visits of the map\<close>

text \<open>
  What every execution keeps true of the script: it has been requested exactly when its
  element is in the document, \<^verbatim>\<open>window.google.maps\<close> is defined exactly when the load
  flag is set, and a loaded script has its element and did not fail.
\<close>

definition loader_inv :: "page \<Rightarrow> bool" where
  "loader_inv p \<longleftrightarrow>
     script_requests p = (if script_tag p then 1 else 0) \<and>
     google_maps p = gmapsLoaded p \<and>
     (gmapsLoaded p \<longrightarrow> script_tag p \<and> \<not> script_failed p)"

text \<open>
  A first visit of the map screen, with the script arriving while the pane is shown, and
  a later visit after a look at the home screen. Each list runs the microtask queue
  empty before the next event.
\<close>

definition first_visit :: "event list" where
  "first_visit = [Click MapScreen, Microtask, Microtask, ScriptLoad, Microtask, Microtask]"

definition revisit :: "event list" where
  "revisit = [Click Home, Click MapScreen, Microtask, Microtask, Microtask, Microtask]"

section \<open>Properties\<close>

subsection \<open>What the regular expression finds\<close>

lemma strip_prefix_Some: "strip_prefix p s = Some r \<longleftrightarrow> s = p @ r"
  by (induction p s rule: strip_prefix.induct) auto

lemma strip_prefix_None: "strip_prefix p s = None \<longleftrightarrow> \<not> prefix p s"
  by (induction p s rule: strip_prefix.induct) auto

lemma strip_prefix_append [simp]: "strip_prefix p (p @ r) = Some r"
  by (simp add: strip_prefix_Some)

lemma lazy_until_fence_Some:
  "lazy_until_fence s = Some (g, r) \<Longrightarrow> s = g @ fence_close @ r"
proof (induction s arbitrary: g)
  case Nil
  then show ?case by simp
next
  case (Cons c cs)
  show ?case
  proof (cases "strip_prefix fence_close (c # cs)")
    case None
    with Cons.prems obtain g' where "lazy_until_fence cs = Some (g', r)" and "g = c # g'"
      by auto
    with Cons.IH show ?thesis by simp
  next
    case (Some r')
    with Cons.prems have "g = []" and "r' = r" by auto
    with Some show ?thesis by (simp add: strip_prefix_Some)
  qed
qed

lemma lazy_until_fence_None:
  "lazy_until_fence s = None \<longleftrightarrow> \<not> sublist fence_close s"
proof (induction s)
  case Nil
  show ?case by (simp add: fence_close_def lit_def)
next
  case (Cons c cs)
  have ne: "fence_close \<noteq> []" by (simp add: fence_close_def lit_def)
  have "sublist fence_close (c # cs) \<longleftrightarrow> prefix fence_close (c # cs) \<or> sublist fence_close cs"
    using ne by (cases fence_close) (simp_all add: sublist_Cons_right)
  with Cons show ?case
    by (auto simp: strip_prefix_None split: option.splits dest: strip_prefix_Some [THEN iffD1])
qed

lemma ws_then_body_Some:
  "ws_then_body s = Some (g, r) \<Longrightarrow>
     \<exists>ws. s = ws @ g @ fence_close @ r \<and> list_all is_ws ws"
proof (induction s)
  case Nil
  then show ?case by simp
next
  case (Cons c cs)
  show ?case
  proof (cases "is_ws c \<and> ws_then_body cs \<noteq> None")
    case True
    with Cons.prems have "ws_then_body cs = Some (g, r)" by auto
    with Cons.IH obtain ws where "cs = ws @ g @ fence_close @ r" "list_all is_ws ws" by blast
    with True have "c # cs = (c # ws) @ g @ fence_close @ r \<and> list_all is_ws (c # ws)" by simp
    then show ?thesis by blast
  next
    case False
    with Cons.prems have "lazy_until_fence (c # cs) = Some (g, r)"
      by (auto split: if_splits option.splits)
    then have "c # cs = [] @ g @ fence_close @ r \<and> list_all is_ws []"
      using lazy_until_fence_Some by simp
    then show ?thesis by blast
  qed
qed

lemma ws_then_body_None: "ws_then_body s = None \<longleftrightarrow> lazy_until_fence s = None"
  by (induction s) (auto split: option.splits)

lemma match_here_Some:
  "match_here s = Some (g, r) \<Longrightarrow>
     \<exists>ws. s = fence_open @ ws @ g @ fence_close @ r \<and> list_all is_ws ws"
  by (auto simp: match_here_def strip_prefix_Some split: option.splits dest!: ws_then_body_Some)

lemma match_here_None:
  "match_here s = None \<longleftrightarrow>
     \<not> (prefix fence_open s \<and> sublist fence_close (drop (length fence_open) s))"
  by (auto simp: match_here_def strip_prefix_None strip_prefix_Some ws_then_body_None
        lazy_until_fence_None split: option.splits)

lemma codeBlockRegex_Some:
  "codeBlockRegex s = Some (p, g, r) \<Longrightarrow>
     \<exists>ws. s = p @ fence_open @ ws @ g @ fence_close @ r \<and> list_all is_ws ws"
proof (induction s arbitrary: p)
  case Nil
  then show ?case by (auto dest!: match_here_Some)
next
  case (Cons c cs)
  show ?case
  proof (cases "match_here (c # cs)")
    case None
    with Cons.prems obtain p' where "codeBlockRegex cs = Some (p', g, r)" "p = c # p'"
      by auto
    with Cons.IH show ?thesis by fastforce
  next
    case (Some m)
    with Cons.prems have "m = (g, r)" "p = []" by (auto split: prod.splits)
    with Some show ?thesis using match_here_Some by simp
  qed
qed

lemma codeBlockRegex_None:
  "codeBlockRegex s = None \<longleftrightarrow> (\<forall>i<length s. match_here (drop i s) = None)"
proof (induction s)
  case Nil
  show ?case by (simp add: match_here_def fence_open_def lit_def)
next
  case (Cons c cs)
  have "(\<forall>i<length (c # cs). match_here (drop i (c # cs)) = None) \<longleftrightarrow>
        match_here (c # cs) = None \<and> (\<forall>i<length cs. match_here (drop i cs) = None)"
    by (auto simp: less_Suc_eq_0_disj)
  with Cons show ?case by (auto split: option.splits)
qed

lemma codeBlockRegex_None_iff: "codeBlockRegex s = None \<longleftrightarrow> \<not> has_fenced_json s"
  by (auto simp: codeBlockRegex_None has_fenced_json_def match_here_None)

lemma has_fenced_json_iff:
  "has_fenced_json s \<longleftrightarrow> (\<exists>p b r. s = p @ fence_open @ b @ fence_close @ r)"
proof
  assume "has_fenced_json s"
  then obtain i where "prefix fence_open (drop i s)"
      "sublist fence_close (drop (length fence_open) (drop i s))"
    unfolding has_fenced_json_def by blast
  then obtain t b r where t: "drop i s = fence_open @ t"
      and "drop (length fence_open) (drop i s) = b @ fence_close @ r"
    unfolding prefix_def sublist_def by blast
  then have "drop i s = fence_open @ b @ fence_close @ r" by simp
  then have "s = take i s @ fence_open @ b @ fence_close @ r"
    by (metis append_take_drop_id)
  then show "\<exists>p b r. s = p @ fence_open @ b @ fence_close @ r" by blast
next
  assume "\<exists>p b r. s = p @ fence_open @ b @ fence_close @ r"
  then obtain p b r where s: "s = p @ fence_open @ b @ fence_close @ r" by blast
  have "length p < length s" by (simp add: s fence_open_def lit_def)
  moreover have "prefix fence_open (drop (length p) s)" by (simp add: s)
  moreover have "sublist fence_close (drop (length fence_open) (drop (length p) s))"
    by (simp add: s sublist_def) blast
  ultimately show "has_fenced_json s" unfolding has_fenced_json_def by auto
qed

lemma trim_Nil_iff: "trim s = [] \<longleftrightarrow> list_all is_ws s"
proof (cases "dropWhile is_ws s = []")
  case True
  have "trim s = []" unfolding trim_def True by simp
  moreover have "list_all is_ws s" using True by (simp add: list_all_iff)
  ultimately show ?thesis by simp
next
  case False
  then have "\<not> is_ws (hd (dropWhile is_ws s))" by (rule hd_dropWhile)
  moreover have "hd (dropWhile is_ws s) \<in> set (rev (dropWhile is_ws s))"
    using False hd_in_set [of "dropWhile is_ws s"] by simp
  ultimately have "dropWhile is_ws (rev (dropWhile is_ws s)) \<noteq> []"
    unfolding dropWhile_eq_Nil_conv by blast
  then have "trim s \<noteq> []" unfolding trim_def rev_is_Nil_conv .
  moreover have "\<not> list_all is_ws s" using False by (simp add: list_all_iff)
  ultimately show ?thesis by simp
qed

lemma sample_match:
  "codeBlockRegex (lit ''Go: ```json [1,```  bye'') = Some (lit ''Go: '', lit ''[1,'', lit ''  bye'')"
  by (simp add: lit_def match_here_def fence_open_def fence_close_def is_ws_def)

lemma fence_open_border:
  "prefix fence_open (u @ fence_open @ rest) \<Longrightarrow> u \<noteq> [] \<Longrightarrow> prefix fence_open u"
  by (auto simp: prefix_append Cons_eq_append_conv fence_open_def lit_def)

lemma no_earlier_fence:
  assumes "\<not> sublist fence_open before" and "i < length before"
  shows "match_here (drop i (before @ fence_open @ rest)) = None"
proof -
  have ne: "drop i before \<noteq> []" using assms(2) by simp
  have "\<not> prefix fence_open (drop i before @ fence_open @ rest)"
  proof
    assume "prefix fence_open (drop i before @ fence_open @ rest)"
    then have "prefix fence_open (drop i before)"
      using ne by (rule fence_open_border)
    then obtain t where d: "drop i before = fence_open @ t"
      unfolding prefix_def by blast
    have "take i before @ fence_open @ t = before"
      unfolding d [symmetric] by (rule append_take_drop_id)
    moreover have "sublist fence_open (take i before @ fence_open @ t)"
      by (rule sublist_appendI)
    ultimately have "sublist fence_open before" by (simp only:)
    with assms(1) show False by contradiction
  qed
  moreover have "drop i (before @ fence_open @ rest) = drop i before @ fence_open @ rest"
    using assms(2) by simp
  ultimately show ?thesis unfolding match_here_None by (simp only:) blast
qed

lemma codeBlockRegex_skip:
  "\<forall>i<length before. match_here (drop i (before @ rest)) = None \<Longrightarrow>
     codeBlockRegex (before @ rest) =
       map_option (\<lambda>(p, g, r). (before @ p, g, r)) (codeBlockRegex rest)"
proof (induction before)
  case Nil
  show ?case by (cases "codeBlockRegex rest") auto
next
  case (Cons c before)
  have here: "match_here (c # before @ rest) = None"
    using Cons.prems [rule_format, of 0] by simp
  have "match_here (drop i (before @ rest)) = None" if "i < length before" for i
    using Cons.prems [rule_format, of "Suc i"] that by simp
  then have ih: "codeBlockRegex (before @ rest) =
       map_option (\<lambda>(p, g, r). (before @ p, g, r)) (codeBlockRegex rest)"
    using Cons.IH by blast
  have "codeBlockRegex (c # before @ rest) =
       map_option (\<lambda>(p, g, r). (c # p, g, r)) (codeBlockRegex (before @ rest))"
    using here by simp
  then show ?case
    unfolding ih by (cases "codeBlockRegex rest") auto
qed

lemma ws_then_body_skip:
  assumes "list_all is_ws ws" and "lazy_until_fence s = Some m"
    and "s = [] \<or> \<not> is_ws (hd s)"
  shows "ws_then_body (ws @ s) = Some m"
  using assms(1)
proof (induction ws)
  case Nil
  then show ?case using assms(2,3) by (cases s) auto
next
  case (Cons c ws)
  then show ?case by simp
qed

lemma codeBlockRegex_first_block:
  assumes "\<not> sublist fence_open before" and "list_all is_ws ws"
    and "lazy_until_fence (g @ fence_close @ after) = Some (g, after)"
    and "g = [] \<or> \<not> is_ws (hd g)"
  shows "codeBlockRegex (before @ fence_open @ ws @ g @ fence_close @ after)
           = Some (before, g, after)"
proof -
  have nonempty: "fence_open \<noteq> []" "fence_close \<noteq> []" by (simp_all add: fence_open_def fence_close_def lit_def)
  have "\<not> is_ws (hd (g @ fence_close @ after))"
    using assms(4) by (cases g) (simp_all add: fence_close_def lit_def is_ws_def)
  then have "ws_then_body (ws @ g @ fence_close @ after) = Some (g, after)"
    using assms(2,3) by (intro ws_then_body_skip) simp_all
  then have here: "match_here (fence_open @ ws @ g @ fence_close @ after) = Some (g, after)"
    by (simp add: match_here_def)
  have "\<exists>c cs. fence_open @ ws @ g @ fence_close @ after = c # cs"
    by (simp add: fence_open_def lit_def)
  then obtain c cs where cs: "fence_open @ ws @ g @ fence_close @ after = c # cs"
    by blast
  have "codeBlockRegex (fence_open @ ws @ g @ fence_close @ after) = Some ([], g, after)"
    unfolding cs using here [unfolded cs] by simp
  moreover have "\<forall>i<length before.
      match_here (drop i (before @ fence_open @ ws @ g @ fence_close @ after)) = None"
    using no_earlier_fence [OF assms(1)] by blast
  ultimately show ?thesis
    using codeBlockRegex_skip [of before "fence_open @ ws @ g @ fence_close @ after"] by simp
qed

lemma lazy_payload_A:
  "lazy_until_fence (payload_A @ fence_close @ after) = Some (payload_A, after)"
  by (simp add: payload_A_def lit_def fence_close_def)

subsection \<open>Pins: helper facts\<close>

lemma opt_get_lacks:
  "\<not> has_field v k \<Longrightarrow> opt_get v k = JUndefined"
  by (cases v) (auto simp: opt_get_def)

lemma pins_guard_lacks:
  "lacks_latitude (elem0 (JArr locs)) \<or> lacks_longitude (elem0 (JArr locs)) \<Longrightarrow>
     \<not> pins_guard (JArr locs)"
  by (auto simp: pins_guard_def lacks_latitude_def lacks_longitude_def opt_get_lacks)

lemma pins_of_payload_not_array:
  "\<forall>locs. parse j \<noteq> Inr (JArr locs) \<Longrightarrow> pins_of_payload parse j = None"
  by (cases "parse j") (auto simp: pins_of_payload_def pins_guard_def split: jsval.splits)

lemma handle_text_no_pins:
  assumes "split_response text = (narrative, payload)"
    and "\<forall>j. payload = Some j \<and> j \<noteq> [] \<longrightarrow> pins_of_payload parse j = None"
  shows "handle_text parse text p =
     p\<lparr>chatMessages := chatMessages p @
          [\<lparr>role = Assistant, content = narrative, markdown = Some True\<rparr>]\<rparr>"
  using assms by (cases payload) (simp_all add: handle_text_def Let_def)

lemma sample_split:
  "split_response (lit ''Go ```json[{\"label\":\"A\"}]```'') = (lit ''Go'', Some (lit ''[{\"label\":\"A\"}]''))"
  by (simp add: split_response_def lit_def match_here_def fence_open_def fence_close_def
        is_ws_def trim_def)

lemma parse_sample_label:
  "parse_sample (lit ''[{\"label\":\"A\"}]'') = Inr (JArr [JObj [(lit ''label'', JStr (lit ''A''))]])"
  by (simp add: parse_sample_def payload_A_def lit_def)

lemma map_to_pin_all:
  "\<not> list_ex nullish locs \<Longrightarrow>
     \<exists>pins. map_to_pin locs = Inr pins \<and> length pins = length locs \<and>
       (\<forall>i<length locs. to_pin (locs ! i) = Inr (pins ! i))"
proof (induction locs)
  case Nil
  then show ?case by simp
next
  case (Cons loc locs)
  then obtain pins where pins: "map_to_pin locs = Inr pins" "length pins = length locs"
      "\<forall>i<length locs. to_pin (locs ! i) = Inr (pins ! i)"
    by auto
  from Cons.prems obtain pn where pn: "to_pin loc = Inr pn"
    by (auto simp: to_pin_def)
  have "\<forall>i<length (loc # locs). to_pin ((loc # locs) ! i) = Inr ((pn # pins) ! i)"
    using pins(3) pn by (auto simp: nth_Cons split: nat.splits)
  with pins pn show ?case by simp
qed

lemma map_to_pin_null:
  "list_ex nullish locs \<Longrightarrow> \<exists>e. map_to_pin locs = Inl e"
  by (induction locs) (auto simp: to_pin_def split: sum.splits)

lemma read_prop_lacks: "\<not> has_field v k \<Longrightarrow> read_prop v k = JUndefined"
  by (cases v) auto

lemma to_pin_lacks_latitude:
  "to_pin loc = Inr pn \<Longrightarrow> lacks_latitude loc \<Longrightarrow> lat pn = JUndefined"
  by (auto simp: to_pin_def lacks_latitude_def read_prop_lacks coalesce_def split: if_splits)

lemma to_pin_lacks_longitude:
  "to_pin loc = Inr pn \<Longrightarrow> lacks_longitude loc \<Longrightarrow> lng pn = JUndefined"
  by (auto simp: to_pin_def lacks_longitude_def read_prop_lacks coalesce_def split: if_splits)

lemma to_pin_A:
  "to_pin pin_A = Inr \<lparr>lat = JNum (Fin 1), lng = JNum (Fin 2), label = JStr (lit ''A''),
                       icon = JUndefined, description = JUndefined\<rparr>"
  by (simp add: to_pin_def pin_A_def coalesce_def lit_def)

lemma pins_guard_A: "pins_guard (JArr (pin_A # locs))"
  by (simp add: pins_guard_def pin_A_def opt_get_def lit_def)

lemma parse_sample_A: "parse_sample payload_A = Inr (JArr [pin_A])"
  by (simp add: parse_sample_def)

subsection \<open>The response splitter\<close>

text \<open>
  C5. For every response text containing no fenced JSON block, the splitter returns the
  full text unchanged as the narrative and produces no pins payload; the message shown
  is the text as it came.
\<close>

theorem no_fence_full_text:
  "\<not> has_fenced_json text \<Longrightarrow>
     split_response text = (text, None) \<and>
     handle_text parse text p =
       p\<lparr>chatMessages := chatMessages p @
            [\<lparr>role = Assistant, content = text, markdown = Some True\<rparr>]\<rparr>"
  by (simp add: split_response_def handle_text_def codeBlockRegex_None_iff [symmetric])

theorem no_fence_full_text_witness:
  "\<not> has_fenced_json (lit ''Try ``Kyoto``'') \<and>
   split_response (lit ''Try ``Kyoto``'') = (lit ''Try ``Kyoto``'', None)"
proof -
  have h: "\<not> has_fenced_json (lit ''Try ``Kyoto``'')"
    by (simp add: has_fenced_json_def lit_def fence_open_def upt_rec)
  show ?thesis
    using h no_fence_full_text [OF h, of reject_all init_page] by simp
qed

text \<open>
  The claim C4 speaks of every text that contains a fenced JSON block whose content
  fails to parse. The code only ever looks at the first block (lines 39 to 44): in a
  reply whose first block is the record A and whose second block is \<^verbatim>\<open>[1,\<close>, which
  does not parse, the pin list is replaced by the pin of the first block and the second
  block stays in the narrative.
\<close>

theorem later_invalid_block_changes_pins:
  "parse_sample (lit ''[1,'') = Inl SyntaxError \<and>
   handle_text parse_sample
     (lit ''Go '' @ fence_open @ payload_A @ fence_close
        @ lit '' and '' @ fence_open @ lit ''[1,'' @ fence_close) init_page =
   init_page\<lparr>chatMessages :=
       [\<lparr>role = Assistant,
         content = lit ''Go  and '' @ fence_open @ lit ''[1,'' @ fence_close,
         markdown = Some True\<rparr>],
     mapPins := [\<lparr>lat = JNum (Fin 1), lng = JNum (Fin 2), label = JStr (lit ''A''),
                  icon = JUndefined, description = JUndefined\<rparr>]\<rparr> \<and>
   mapPins (handle_text parse_sample
     (lit ''Go '' @ fence_open @ payload_A @ fence_close
        @ lit '' and '' @ fence_open @ lit ''[1,'' @ fence_close) init_page)
     \<noteq> mapPins init_page"
proof -
  let ?after = "lit '' and '' @ fence_open @ lit ''[1,'' @ fence_close"
  let ?text = "lit ''Go '' @ fence_open @ payload_A @ fence_close @ ?after"
  have bad: "parse_sample (lit ''[1,'') = Inl SyntaxError"
    by (simp add: parse_sample_def payload_A_def lit_def)
  have a: "\<not> sublist fence_open (lit ''Go '')"
    by (simp add: fence_open_def lit_def sublist_code(3))
  have "codeBlockRegex (lit ''Go '' @ fence_open @ [] @ payload_A @ fence_close @ ?after)
          = Some (lit ''Go '', payload_A, ?after)"
  proof (rule codeBlockRegex_first_block [OF a])
    show "list_all is_ws []" by simp
    show "lazy_until_fence (payload_A @ fence_close @ ?after) = Some (payload_A, ?after)"
      by (rule lazy_payload_A)
    show "payload_A = [] \<or> \<not> is_ws (hd payload_A)"
      by (simp add: payload_A_def lit_def is_ws_def)
  qed
  then have split: "split_response ?text = (trim (lit ''Go '' @ ?after), Some payload_A)"
    by (simp add: split_response_def)
  have t: "trim (lit ''Go '' @ ?after) = lit ''Go  and '' @ fence_open @ lit ''[1,'' @ fence_close"
    by (simp add: trim_def lit_def is_ws_def fence_open_def fence_close_def)
  have pins: "pins_of_payload parse_sample payload_A =
      Some [\<lparr>lat = JNum (Fin 1), lng = JNum (Fin 2), label = JStr (lit ''A''),
               icon = JUndefined, description = JUndefined\<rparr>]"
    using parse_sample_A pins_guard_A [of "[]"] to_pin_A by (simp add: pins_of_payload_def)
  have ne: "payload_A \<noteq> []" by (simp add: payload_A_def lit_def)
  have h: "handle_text parse_sample ?text init_page =
     init_page\<lparr>chatMessages :=
       [\<lparr>role = Assistant,
         content = lit ''Go  and '' @ fence_open @ lit ''[1,'' @ fence_close,
         markdown = Some True\<rparr>],
     mapPins := [\<lparr>lat = JNum (Fin 1), lng = JNum (Fin 2), label = JStr (lit ''A''),
                  icon = JUndefined, description = JUndefined\<rparr>]\<rparr>"
    using split pins ne by (simp add: handle_text_def setMapPins_def t) (simp add: init_page_def)
  have "mapPins (handle_text parse_sample ?text init_page) \<noteq> mapPins init_page"
    unfolding h by (simp add: init_page_def)
  with bad h show ?thesis by simp
qed

text \<open>
  C4, amended. For every response text whose first fenced JSON block has a content (the
  payload the expression captures, \<open>j\<close>) that fails to parse as JSON, the pin list is
  left unchanged and the narrative shown equals the full text with that block removed
  and trimmed: the text is \<open>before\<close>, the block, \<open>after\<close>, and the narrative is
  \<open>trim (before @ after)\<close>.
\<close>

theorem invalid_json_keeps_pins:
  assumes "codeBlockRegex text = Some (before, j, after)"
    and "parse j = Inl e"
  shows "mapPins (handle_text parse text p) = mapPins p \<and>
         chatMessages (handle_text parse text p) =
           chatMessages p @
             [\<lparr>role = Assistant, content = trim (before @ after), markdown = Some True\<rparr>] \<and>
         (\<exists>ws. text = before @ fence_open @ ws @ j @ fence_close @ after \<and> list_all is_ws ws)"
proof -
  have "split_response text = (trim (before @ after), Some j)"
    using assms(1) by (simp add: split_response_def)
  moreover have "pins_of_payload parse j = None"
    using assms(2) by (simp add: pins_of_payload_def)
  ultimately have "handle_text parse text p =
      p\<lparr>chatMessages := chatMessages p @
        [\<lparr>role = Assistant, content = trim (before @ after), markdown = Some True\<rparr>]\<rparr>"
    by (simp add: handle_text_def Let_def)
  then show ?thesis using codeBlockRegex_Some [OF assms(1)] by simp
qed

theorem invalid_json_keeps_pins_witness:
  "codeBlockRegex (lit ''Go: ```json [1,```  bye'') = Some (lit ''Go: '', lit ''[1,'', lit ''  bye'') \<and>
   reject_all (lit ''[1,'') = Inl SyntaxError \<and>
   mapPins (handle_text reject_all (lit ''Go: ```json [1,```  bye'') init_page) = [] \<and>
   chatMessages (handle_text reject_all (lit ''Go: ```json [1,```  bye'') init_page) =
     [\<lparr>role = Assistant, content = lit ''Go:   bye'', markdown = Some True\<rparr>]"
proof -
  have r: "reject_all (lit ''[1,'') = Inl SyntaxError" by (simp add: reject_all_def)
  have t: "trim (lit ''Go: '' @ lit ''  bye'') = lit ''Go:   bye''"
    by (simp add: trim_def lit_def is_ws_def)
  show ?thesis
    using invalid_json_keeps_pins [where parse = reject_all and p = init_page, OF sample_match r]
      sample_match r
    by (simp add: t) (simp add: init_page_def)
qed




subsection \<open>The pins payload\<close>

text \<open>
  C2. For every candidate pins payload extracted from a fenced JSON block: if the payload
  does not parse as a JSON array, or parses but its first element lacks both a
  latitude-like and a longitude-like field, then no pins are produced, the prior pin list
  is unchanged, and the narrative message is still appended to the transcript.
\<close>

theorem unusable_payload_discarded:
  assumes "split_response text = (narrative, Some j)"
    and "(\<forall>locs. parse j \<noteq> Inr (JArr locs)) \<or>
         (\<exists>locs. parse j = Inr (JArr locs) \<and>
            lacks_latitude (elem0 (JArr locs)) \<and> lacks_longitude (elem0 (JArr locs)))"
  shows "pins_of_payload parse j = None \<and>
         mapPins (handle_text parse text p) = mapPins p \<and>
         chatMessages (handle_text parse text p) =
           chatMessages p @
             [\<lparr>role = Assistant, content = narrative, markdown = Some True\<rparr>]"
proof -
  have none: "pins_of_payload parse j = None"
    using assms(2)
  proof
    assume "\<forall>locs. parse j \<noteq> Inr (JArr locs)"
    then show ?thesis by (rule pins_of_payload_not_array)
  next
    assume "\<exists>locs. parse j = Inr (JArr locs) \<and>
            lacks_latitude (elem0 (JArr locs)) \<and> lacks_longitude (elem0 (JArr locs))"
    then obtain locs where "parse j = Inr (JArr locs)" "lacks_latitude (elem0 (JArr locs))"
      by blast
    then show ?thesis using pins_guard_lacks [of locs] by (simp add: pins_of_payload_def)
  qed
  then have "handle_text parse text p =
     p\<lparr>chatMessages := chatMessages p @
          [\<lparr>role = Assistant, content = narrative, markdown = Some True\<rparr>]\<rparr>"
    using handle_text_no_pins [OF assms(1), of parse p] by simp
  with none show ?thesis by simp
qed

theorem unusable_payload_discarded_witness:
  "split_response (lit ''Go ```json[{\"label\":\"A\"}]```'') = (lit ''Go'', Some (lit ''[{\"label\":\"A\"}]'')) \<and>
   parse_sample (lit ''[{\"label\":\"A\"}]'') = Inr (JArr [JObj [(lit ''label'', JStr (lit ''A''))]]) \<and>
   lacks_latitude (elem0 (JArr [JObj [(lit ''label'', JStr (lit ''A''))]])) \<and>
   lacks_longitude (elem0 (JArr [JObj [(lit ''label'', JStr (lit ''A''))]])) \<and>
   pins_of_payload parse_sample (lit ''[{\"label\":\"A\"}]'') = None \<and>
   mapPins (handle_text parse_sample (lit ''Go ```json[{\"label\":\"A\"}]```'') init_page) = [] \<and>
   chatMessages (handle_text parse_sample (lit ''Go ```json[{\"label\":\"A\"}]```'') init_page) =
     [\<lparr>role = Assistant, content = lit ''Go'', markdown = Some True\<rparr>]"
proof -
  have l: "lacks_latitude (elem0 (JArr [JObj [(lit ''label'', JStr (lit ''A''))]])) \<and>
   lacks_longitude (elem0 (JArr [JObj [(lit ''label'', JStr (lit ''A''))]]))"
    by (simp add: lacks_latitude_def lacks_longitude_def lit_def)
  have h: "(\<forall>locs. parse_sample (lit ''[{\"label\":\"A\"}]'') \<noteq> Inr (JArr locs)) \<or>
         (\<exists>locs. parse_sample (lit ''[{\"label\":\"A\"}]'') = Inr (JArr locs) \<and>
            lacks_latitude (elem0 (JArr locs)) \<and> lacks_longitude (elem0 (JArr locs)))"
    using l parse_sample_label by simp
  show ?thesis
    using unusable_payload_discarded [where parse = parse_sample and p = init_page, OF sample_split h]
      sample_split parse_sample_label l
    by (simp add: init_page_def)
qed

text \<open>
  The claim C3 fails for a value that is \<^verbatim>\<open>null\<close>: \<^verbatim>\<open>null ?? undefined\<close> is
  \<^verbatim>\<open>undefined\<close>, while \<^verbatim>\<open>undefined ?? null\<close> is \<^verbatim>\<open>null\<close>, so the record with
  \<^verbatim>\<open>"lat": null\<close> gets \<^verbatim>\<open>lat: undefined\<close> and the one with \<^verbatim>\<open>"latitude": null\<close>
  gets \<^verbatim>\<open>lat: null\<close>.
\<close>

theorem null_value_normalizes_differently:
  "to_pin (JObj [(lit ''latitude'', JNull), (lit ''longitude'', JNum (Fin 2)),
                 (lit ''name'', JStr (lit ''A''))])
   \<noteq> to_pin (JObj [(lit ''lat'', JNull), (lit ''lng'', JNum (Fin 2)),
                   (lit ''label'', JStr (lit ''A''))])"
  by (simp add: to_pin_def coalesce_def lit_def)

text \<open>
  C3, amended. A record that uses the keys \<^verbatim>\<open>latitude\<close>, \<^verbatim>\<open>longitude\<close> and
  \<^verbatim>\<open>name\<close> (and not the short ones) normalizes to exactly the same pin as the record
  that uses \<^verbatim>\<open>lat\<close>, \<^verbatim>\<open>lng\<close> and \<^verbatim>\<open>label\<close> (and not the long ones) with the same
  values and the same \<^verbatim>\<open>icon\<close> and \<^verbatim>\<open>description\<close>, provided none of the three
  values is \<^verbatim>\<open>null\<close>.
\<close>

theorem long_keys_normalize_alike:
  assumes "a \<noteq> JNull" and "b \<noteq> JNull" and "c \<noteq> JNull"
    and "map_of long (lit ''latitude'') = Some a"
    and "map_of long (lit ''longitude'') = Some b"
    and "map_of long (lit ''name'') = Some c"
    and "map_of long (lit ''lat'') = None"
    and "map_of long (lit ''lng'') = None"
    and "map_of long (lit ''label'') = None"
    and "map_of short (lit ''lat'') = Some a"
    and "map_of short (lit ''lng'') = Some b"
    and "map_of short (lit ''label'') = Some c"
    and "map_of short (lit ''latitude'') = None"
    and "map_of short (lit ''longitude'') = None"
    and "map_of short (lit ''name'') = None"
    and "map_of long (lit ''icon'') = map_of short (lit ''icon'')"
    and "map_of long (lit ''description'') = map_of short (lit ''description'')"
  shows "to_pin (JObj long) = to_pin (JObj short)"
proof -
  have n: "coalesce JUndefined v = v" "v \<noteq> JNull \<Longrightarrow> coalesce v JUndefined = v" for v
    by (cases v; simp add: coalesce_def)+
  show ?thesis
    using assms by (simp add: to_pin_def n)
qed

theorem long_keys_normalize_alike_witness:
  "to_pin (JObj [(lit ''name'', JStr (lit ''A'')), (lit ''latitude'', JNum (Fin 1)),
                 (lit ''longitude'', JNum (Fin 2)), (lit ''icon'', JStr (lit ''x''))])
   = to_pin (JObj [(lit ''lat'', JNum (Fin 1)), (lit ''lng'', JNum (Fin 2)),
                   (lit ''label'', JStr (lit ''A'')), (lit ''icon'', JStr (lit ''x''))]) \<and>
   to_pin (JObj [(lit ''lat'', JNum (Fin 1)), (lit ''lng'', JNum (Fin 2)),
                   (lit ''label'', JStr (lit ''A'')), (lit ''icon'', JStr (lit ''x''))])
   = Inr \<lparr>lat = JNum (Fin 1), lng = JNum (Fin 2), label = JStr (lit ''A''),
          icon = JStr (lit ''x''), description = JUndefined\<rparr>"
proof -
  have "to_pin (JObj [(lit ''name'', JStr (lit ''A'')), (lit ''latitude'', JNum (Fin 1)),
                 (lit ''longitude'', JNum (Fin 2)), (lit ''icon'', JStr (lit ''x''))])
   = to_pin (JObj [(lit ''lat'', JNum (Fin 1)), (lit ''lng'', JNum (Fin 2)),
                   (lit ''label'', JStr (lit ''A'')), (lit ''icon'', JStr (lit ''x''))])"
    by (rule long_keys_normalize_alike [where a = "JNum (Fin 1)" and b = "JNum (Fin 2)"
          and c = "JStr (lit ''A'')"]) (simp_all add: lit_def)
  moreover have "to_pin (JObj [(lit ''lat'', JNum (Fin 1)), (lit ''lng'', JNum (Fin 2)),
                   (lit ''label'', JStr (lit ''A'')), (lit ''icon'', JStr (lit ''x''))])
   = Inr \<lparr>lat = JNum (Fin 1), lng = JNum (Fin 2), label = JStr (lit ''A''),
          icon = JStr (lit ''x''), description = JUndefined\<rparr>"
    by (simp add: to_pin_def coalesce_def lit_def)
  ultimately show ?thesis by simp
qed

text \<open>
  The claim C10 fails for an array with a \<^verbatim>\<open>null\<close> element after a first element that
  passes the test: reading \<^verbatim>\<open>loc.lat\<close> of \<^verbatim>\<open>null\<close> throws inside \<^verbatim>\<open>map\<close>, the empty
  \<^verbatim>\<open>catch\<close> of line 63 swallows it, and no element becomes a pin.
\<close>

theorem null_element_no_pins:
  "parse_sample (lit ''[{\"lat\":1,\"lng\":2,\"label\":\"A\"},null]'') = Inr (JArr [pin_A, JNull]) \<and>
   pins_guard (JArr [pin_A, JNull]) \<and>
   pins_of_payload parse_sample (lit ''[{\"lat\":1,\"lng\":2,\"label\":\"A\"},null]'') = None"
proof -
  have a: "parse_sample (lit ''[{\"lat\":1,\"lng\":2,\"label\":\"A\"},null]'') = Inr (JArr [pin_A, JNull])"
    by (simp add: parse_sample_def payload_A_def lit_def)
  have b: "pins_guard (JArr [pin_A, JNull])"
    by (simp add: pins_guard_def pin_A_def opt_get_def lit_def)
  have c: "map_to_pin [pin_A, JNull] = Inl TypeError"
    by (simp add: to_pin_def pin_A_def)
  show ?thesis using a b c by (simp add: pins_of_payload_def)
qed

text \<open>
  C10, amended. The test of line 52 inspects only the first element of the parsed
  array. For every parsed JSON array whose first element passes it and which has no
  \<^verbatim>\<open>null\<close> element, every element becomes a pin, in order, including later elements
  that lack a latitude-like or a longitude-like field, whose pins have \<^verbatim>\<open>lat\<close>,
  respectively \<^verbatim>\<open>lng\<close>, undefined. When an element is \<^verbatim>\<open>null\<close> no pins are produced.
\<close>

theorem first_element_decides:
  assumes "parse j = Inr (JArr locs)" and "pins_guard (JArr locs)"
  shows "(\<not> list_ex nullish locs \<longrightarrow>
            (\<exists>pins. pins_of_payload parse j = Some pins \<and> length pins = length locs \<and>
               (\<forall>i<length locs.
                  to_pin (locs ! i) = Inr (pins ! i) \<and>
                  (lacks_latitude (locs ! i) \<longrightarrow> lat (pins ! i) = JUndefined) \<and>
                  (lacks_longitude (locs ! i) \<longrightarrow> lng (pins ! i) = JUndefined)))) \<and>
         (list_ex nullish locs \<longrightarrow> pins_of_payload parse j = None)"
proof (cases "list_ex nullish locs")
  case True
  then obtain e where "map_to_pin locs = Inl e" using map_to_pin_null by blast
  with assms True show ?thesis by (simp add: pins_of_payload_def)
next
  case False
  then obtain pins where pins: "map_to_pin locs = Inr pins" "length pins = length locs"
      "\<forall>i<length locs. to_pin (locs ! i) = Inr (pins ! i)"
    using map_to_pin_all by blast
  have "pins_of_payload parse j = Some pins"
    using assms pins(1) by (simp add: pins_of_payload_def)
  moreover have "\<forall>i<length locs.
                  to_pin (locs ! i) = Inr (pins ! i) \<and>
                  (lacks_latitude (locs ! i) \<longrightarrow> lat (pins ! i) = JUndefined) \<and>
                  (lacks_longitude (locs ! i) \<longrightarrow> lng (pins ! i) = JUndefined)"
    using pins(3) to_pin_lacks_latitude to_pin_lacks_longitude by blast
  ultimately show ?thesis using False pins(2) by blast
qed

theorem first_element_decides_witness:
  "parse_sample (lit ''[{\"lat\":1,\"lng\":2,\"label\":\"A\"},{\"label\":\"B\"}]'')
     = Inr (JArr [pin_A, JObj [(lit ''label'', JStr (lit ''B''))]]) \<and>
   pins_guard (JArr [pin_A, JObj [(lit ''label'', JStr (lit ''B''))]]) \<and>
   pins_of_payload parse_sample (lit ''[{\"lat\":1,\"lng\":2,\"label\":\"A\"},{\"label\":\"B\"}]'')
     = Some [\<lparr>lat = JNum (Fin 1), lng = JNum (Fin 2), label = JStr (lit ''A''),
               icon = JUndefined, description = JUndefined\<rparr>,
             \<lparr>lat = JUndefined, lng = JUndefined, label = JStr (lit ''B''),
               icon = JUndefined, description = JUndefined\<rparr>]"
proof -
  let ?j = "lit ''[{\"lat\":1,\"lng\":2,\"label\":\"A\"},{\"label\":\"B\"}]''"
  let ?locs = "[pin_A, JObj [(lit ''label'', JStr (lit ''B''))]]"
  have a: "parse_sample ?j = Inr (JArr ?locs)"
    by (simp add: parse_sample_def payload_A_def lit_def)
  have b: "pins_guard (JArr ?locs)"
    by (simp add: pins_guard_def pin_A_def opt_get_def lit_def)
  have n: "\<not> list_ex nullish ?locs" by (simp add: pin_A_def)
  from first_element_decides [where parse = parse_sample, OF a b] n
  obtain pins where p1: "pins_of_payload parse_sample ?j = Some pins"
      and p2: "length pins = length ?locs"
      and p3: "\<forall>i<length ?locs. to_pin (?locs ! i) = Inr (pins ! i) \<and>
                  (lacks_latitude (?locs ! i) \<longrightarrow> lat (pins ! i) = JUndefined) \<and>
                  (lacks_longitude (?locs ! i) \<longrightarrow> lng (pins ! i) = JUndefined)"
    by blast
  have pins: "pins_of_payload parse_sample ?j = Some pins"
      "to_pin (?locs ! 0) = Inr (pins ! 0)" "to_pin (?locs ! 1) = Inr (pins ! 1)"
      "length pins = 2"
    using p1 p2 p3 [rule_format, of 0] p3 [rule_format, of 1] by simp_all
  have "pins = [pins ! 0, pins ! 1]"
    using pins(4) by (auto simp: list_eq_iff_nth_eq less_Suc_eq numeral_2_eq_2)
  moreover have "to_pin (?locs ! 0) = Inr \<lparr>lat = JNum (Fin 1), lng = JNum (Fin 2), label = JStr (lit ''A''),
               icon = JUndefined, description = JUndefined\<rparr>"
    by (simp add: to_pin_def pin_A_def coalesce_def lit_def)
  moreover have "to_pin (?locs ! 1) = Inr \<lparr>lat = JUndefined, lng = JUndefined, label = JStr (lit ''B''),
               icon = JUndefined, description = JUndefined\<rparr>"
    by (simp add: to_pin_def pin_A_def coalesce_def lit_def)
  ultimately have "pins = [\<lparr>lat = JNum (Fin 1), lng = JNum (Fin 2), label = JStr (lit ''A''),
               icon = JUndefined, description = JUndefined\<rparr>,
             \<lparr>lat = JUndefined, lng = JUndefined, label = JStr (lit ''B''),
               icon = JUndefined, description = JUndefined\<rparr>]"
    using pins(2,3) by simp
  with a b pins(1) show ?thesis by simp
qed

subsection \<open>A failed request\<close>

text \<open>
  C9. For every failed chat request (the \<^verbatim>\<open>fetch\<close> rejects, or the body is not JSON),
  exactly one fixed assistant-role error message is appended to the transcript, the
  user's message remains in the transcript, and the loading flag is cleared. The first
  part holds for the transcript as it stands when the answer arrives; the second is the
  whole call with nothing in between.
\<close>

theorem failed_request_one_error_message:
  assumes "r = NetworkError \<or> r = BodyNotJson"
  shows "chatMessages (sendMessage_resume parse r q) =
           chatMessages q @
             [\<lparr>role = Assistant, content = lit ''[Error contacting Gemini API]'',
               markdown = None\<rparr>] \<and>
         isLoading (sendMessage_resume parse r q) = False \<and>
         (trim (chatInput p) \<noteq> [] \<longrightarrow>
            chatMessages (sendMessage parse r p) =
              chatMessages p @
                [\<lparr>role = User, content = chatInput p, markdown = None\<rparr>,
                 \<lparr>role = Assistant, content = lit ''[Error contacting Gemini API]'',
                   markdown = None\<rparr>] \<and>
            isLoading (sendMessage parse r p) = False \<and>
            mapPins (sendMessage parse r p) = mapPins p)"
  using assms
  by (auto simp: sendMessage_def sendMessage_resume_def sendMessage_begin_def catch_error_def)

theorem failed_request_one_error_message_witness:
  "trim (chatInput (init_page\<lparr>chatInput := lit ''hi''\<rparr>)) \<noteq> [] \<and>
   chatMessages (sendMessage reject_all NetworkError (init_page\<lparr>chatInput := lit ''hi''\<rparr>)) =
     [\<lparr>role = User, content = lit ''hi'', markdown = None\<rparr>,
      \<lparr>role = Assistant, content = lit ''[Error contacting Gemini API]'', markdown = None\<rparr>] \<and>
   isLoading (sendMessage reject_all NetworkError (init_page\<lparr>chatInput := lit ''hi''\<rparr>)) = False"
proof -
  have t: "trim (chatInput (init_page\<lparr>chatInput := lit ''hi''\<rparr>)) \<noteq> []"
    by (simp add: trim_def lit_def is_ws_def)
  show ?thesis
    using t failed_request_one_error_message [of NetworkError reject_all init_page
        "init_page\<lparr>chatInput := lit ''hi''\<rparr>"]
    by (simp add: init_page_def)
qed

subsection \<open>The trim guard\<close>

text \<open>
  C7. For every chat input that is empty or consists only of whitespace, submitting it
  performs no network request and appends no message: the call returns at line 18 and
  the whole page, with its transcript, its pin list and the list of requests made, is
  as before.
\<close>

theorem blank_input_no_effect:
  "list_all is_ws (chatInput p) \<Longrightarrow>
     sendMessage parse r p = p \<and>
     fetches (sendMessage parse r p) = fetches p \<and>
     chatMessages (sendMessage parse r p) = chatMessages p \<and>
     mapPins (sendMessage parse r p) = mapPins p \<and>
     sendMessage_begin p = p \<and> step parse Submit p = p"
  by (simp add: sendMessage_begin_def sendMessage_def trim_Nil_iff)

theorem blank_input_no_effect_witness:
  "list_all is_ws (chatInput (init_page\<lparr>chatInput := lit ''  ''\<rparr>)) \<and>
   sendMessage reject_all NetworkError (init_page\<lparr>chatInput := lit ''  ''\<rparr>)
     = init_page\<lparr>chatInput := lit ''  ''\<rparr>"
  using blank_input_no_effect [of "init_page\<lparr>chatInput := lit ''  ''\<rparr>" reject_all NetworkError]
  by (simp add: lit_def is_ws_def)

subsection \<open>The map script\<close>

lemmas page_defs = init_page_def click_def run_reactive_def reactive_markers_def
  reactive_init_def reactive_reset_def run_microtask_def tick_callback_def loadGoogleMaps_def
  init_resume_def updateMapPins_def script_load_def Let_def

lemma after_first_visit:
  "run reject_all first_visit init_page =
     init_page\<lparr>currentScreen := MapScreen, map_inst := Some 1, mapElement := Some 0,
       mapInitialized := True, script_tag := True, google_maps := True, gmapsLoaded := True,
       script_requests := 1, loader_calls := 2, maps_created := 2, elements_created := 1\<rparr>"
  by (simp add: first_visit_def page_defs)

lemma loader_inv_cong:
  assumes "script_tag q = script_tag p" and "script_requests q = script_requests p"
    and "google_maps q = google_maps p" and "gmapsLoaded q = gmapsLoaded p"
    and "script_failed q = script_failed p"
  shows "loader_inv q = loader_inv p"
  using assms by (simp add: loader_inv_def)

lemma updateMapPins_frame:
  "script_tag (updateMapPins p) = script_tag p"
  "script_requests (updateMapPins p) = script_requests p"
  "google_maps (updateMapPins p) = google_maps p"
  "gmapsLoaded (updateMapPins p) = gmapsLoaded p"
  "script_failed (updateMapPins p) = script_failed p"
  by (simp_all add: updateMapPins_def split: option.split)

lemma run_reactive_frame:
  "script_tag (run_reactive d p) = script_tag p"
  "script_requests (run_reactive d p) = script_requests p"
  "google_maps (run_reactive d p) = google_maps p"
  "gmapsLoaded (run_reactive d p) = gmapsLoaded p"
  "script_failed (run_reactive d p) = script_failed p"
  by (simp_all add: run_reactive_def reactive_reset_def reactive_init_def reactive_markers_def
        updateMapPins_frame)

lemma click_frame:
  "script_tag (click s p) = script_tag p"
  "script_requests (click s p) = script_requests p"
  "google_maps (click s p) = google_maps p"
  "gmapsLoaded (click s p) = gmapsLoaded p"
  "script_failed (click s p) = script_failed p"
  by (simp_all add: click_def Let_def run_reactive_frame)

lemma handle_text_frame:
  "script_tag (handle_text parse t p) = script_tag p"
  "script_requests (handle_text parse t p) = script_requests p"
  "google_maps (handle_text parse t p) = google_maps p"
  "gmapsLoaded (handle_text parse t p) = gmapsLoaded p"
  "script_failed (handle_text parse t p) = script_failed p"
  by (simp_all add: handle_text_def Let_def setMapPins_def split: prod.split option.split)

lemma sendMessage_resume_frame:
  "script_tag (sendMessage_resume parse r p) = script_tag p"
  "script_requests (sendMessage_resume parse r p) = script_requests p"
  "google_maps (sendMessage_resume parse r p) = google_maps p"
  "gmapsLoaded (sendMessage_resume parse r p) = gmapsLoaded p"
  "script_failed (sendMessage_resume parse r p) = script_failed p"
  by (simp_all add: sendMessage_resume_def Let_def catch_error_def handle_text_frame
        split: fetch_result.split sum.split jsval.split)

lemma sendMessage_begin_frame:
  "script_tag (sendMessage_begin p) = script_tag p"
  "script_requests (sendMessage_begin p) = script_requests p"
  "google_maps (sendMessage_begin p) = google_maps p"
  "gmapsLoaded (sendMessage_begin p) = gmapsLoaded p"
  "script_failed (sendMessage_begin p) = script_failed p"
  by (simp_all add: sendMessage_begin_def)

lemma init_resume_frame:
  "script_tag (init_resume p) = script_tag p"
  "script_requests (init_resume p) = script_requests p"
  "google_maps (init_resume p) = google_maps p"
  "gmapsLoaded (init_resume p) = gmapsLoaded p"
  "script_failed (init_resume p) = script_failed p"
  by (simp_all add: init_resume_def Let_def run_reactive_frame updateMapPins_frame
        split: option.split)

lemma loadGoogleMaps_inv: "loader_inv p \<Longrightarrow> loader_inv (snd (loadGoogleMaps p))"
  by (auto simp: loader_inv_def loadGoogleMaps_def Let_def)

lemma tick_callback_inv: "loader_inv p \<Longrightarrow> loader_inv (tick_callback p)"
proof -
  assume inv: "loader_inv p"
  obtain w q where l: "loadGoogleMaps p = (w, q)" by (cases "loadGoogleMaps p")
  have "loader_inv q" using loadGoogleMaps_inv [OF inv] l by simp
  moreover have "loader_inv (q\<lparr>microtasks := microtasks q @ [InitResume]\<rparr>) = loader_inv q"
    by (rule loader_inv_cong) simp_all
  ultimately show ?thesis
    using inv l by (cases w) (simp_all add: tick_callback_def)
qed

lemma run_microtask_inv: "loader_inv p \<Longrightarrow> loader_inv (run_microtask p)"
proof (cases "microtasks p")
  case Nil
  assume "loader_inv p"
  with Nil show ?thesis by (simp add: run_microtask_def)
next
  case (Cons t ts)
  assume inv: "loader_inv p"
  have inv': "loader_inv (p\<lparr>microtasks := ts\<rparr>)"
    using inv loader_inv_cong [of "p\<lparr>microtasks := ts\<rparr>" p] by simp
  show ?thesis
  proof (cases t)
    case TickThen
    then show ?thesis using tick_callback_inv [OF inv'] Cons by (simp add: run_microtask_def)
  next
    case InitResume
    have "loader_inv (init_resume (p\<lparr>microtasks := ts\<rparr>)) = loader_inv (p\<lparr>microtasks := ts\<rparr>)"
      by (rule loader_inv_cong) (simp_all add: init_resume_frame)
    with InitResume inv' Cons show ?thesis by (simp add: run_microtask_def)
  qed
qed

lemma step_inv: "loader_inv p \<Longrightarrow> loader_inv (step parse e p)"
proof (cases e)
  case (Click s)
  assume "loader_inv p"
  moreover have "loader_inv (click s p) = loader_inv p"
    by (rule loader_inv_cong) (simp_all add: click_frame)
  ultimately show ?thesis using Click by simp
next
  case (Input s)
  assume "loader_inv p"
  then show ?thesis using Input by (simp add: loader_inv_def)
next
  case Submit
  assume "loader_inv p"
  moreover have "loader_inv (sendMessage_begin p) = loader_inv p"
    by (rule loader_inv_cong) (simp_all add: sendMessage_begin_frame)
  ultimately show ?thesis using Submit by simp
next
  case (Response r)
  assume "loader_inv p"
  moreover have "loader_inv (sendMessage_resume parse r p) = loader_inv p"
    by (rule loader_inv_cong) (simp_all add: sendMessage_resume_frame)
  ultimately show ?thesis using Response by simp
next
  case Microtask
  assume "loader_inv p"
  then show ?thesis using Microtask run_microtask_inv by simp
next
  case ScriptLoad
  assume "loader_inv p"
  then show ?thesis using ScriptLoad by (auto simp: loader_inv_def script_load_def)
next
  case ScriptError
  assume "loader_inv p"
  then show ?thesis using ScriptError by (auto simp: loader_inv_def script_error_def)
qed

lemma run_inv: "loader_inv p \<Longrightarrow> loader_inv (run parse es p)"
  by (induction es arbitrary: p) (simp_all add: step_inv)

lemma init_inv: "loader_inv init_page"
  by (simp add: loader_inv_def init_page_def)

text \<open>
  C8. The external map script is requested at most once per page lifetime: after any
  sequence of events the number of script elements appended is at most one, and a call
  of the loader while the script element exists appends nothing. If the script has
  loaded, the promise is resolved at once; if not, the call registers a listener, and
  the script's \<^verbatim>\<open>onload\<close> (unless the load failed) puts every waiting callback into the
  queue.
\<close>

theorem script_requested_at_most_once:
  assumes "p = run parse es init_page"
  shows "script_requests p \<le> 1 \<and>
         (script_tag p \<longrightarrow>
            script_requests (snd (loadGoogleMaps p)) = script_requests p \<and>
            (gmapsLoaded p \<longrightarrow> fst (loadGoogleMaps p) = Resolved) \<and>
            (\<not> gmapsLoaded p \<longrightarrow>
               fst (loadGoogleMaps p) = OnEvent \<and>
               listeners (snd (loadGoogleMaps p)) = Suc (listeners p) \<and>
               (\<not> script_failed p \<longrightarrow>
                  microtasks (script_load (snd (loadGoogleMaps p))) =
                    microtasks p @ replicate (Suc (listeners p)) InitResume
                      @ replicate (onload_waiting p) InitResume)))"
proof -
  have inv: "loader_inv p" unfolding assms by (rule run_inv [OF init_inv])
  then have "script_requests p \<le> 1" by (simp add: loader_inv_def)
  moreover have "script_tag p \<longrightarrow>
            script_requests (snd (loadGoogleMaps p)) = script_requests p \<and>
            (gmapsLoaded p \<longrightarrow> fst (loadGoogleMaps p) = Resolved) \<and>
            (\<not> gmapsLoaded p \<longrightarrow>
               fst (loadGoogleMaps p) = OnEvent \<and>
               listeners (snd (loadGoogleMaps p)) = Suc (listeners p) \<and>
               (\<not> script_failed p \<longrightarrow>
                  microtasks (script_load (snd (loadGoogleMaps p))) =
                    microtasks p @ replicate (Suc (listeners p)) InitResume
                      @ replicate (onload_waiting p) InitResume))"
    using inv by (simp add: loader_inv_def loadGoogleMaps_def Let_def script_load_def)
  ultimately show ?thesis by simp
qed

theorem script_requested_at_most_once_witness:
  "script_requests (run reject_all [Click MapScreen, Microtask] init_page) \<le> 1 \<and>
   script_tag (run reject_all [Click MapScreen, Microtask] init_page) \<and>
   \<not> gmapsLoaded (run reject_all [Click MapScreen, Microtask] init_page) \<and>
   \<not> script_failed (run reject_all [Click MapScreen, Microtask] init_page) \<and>
   fst (loadGoogleMaps (run reject_all [Click MapScreen, Microtask] init_page)) = OnEvent \<and>
   script_requests (snd (loadGoogleMaps (run reject_all [Click MapScreen, Microtask] init_page)))
     = script_requests (run reject_all [Click MapScreen, Microtask] init_page)"
proof -
  have h: "script_tag (run reject_all [Click MapScreen, Microtask] init_page)"
      "\<not> gmapsLoaded (run reject_all [Click MapScreen, Microtask] init_page)"
      "\<not> script_failed (run reject_all [Click MapScreen, Microtask] init_page)"
    by (simp_all add: page_defs)
  show ?thesis
    using script_requested_at_most_once [OF refl, of reject_all "[Click MapScreen, Microtask]"] h
    by simp
qed

subsection \<open>The map instance\<close>

text \<open>
  The claim C1 says that the map instance is created at most once and that leaving the
  map screen and returning creates none. Line 141 resets \<^verbatim>\<open>mapInitialized\<close> when the
  screen is left, so on return the statement of line 126 queues the callback again, and
  the callback calls the loader and constructs a map on the new pane: after a first
  visit and a return, more than one instance has been constructed, the variable
  \<^verbatim>\<open>map\<close> holds another instance than before, and the loader has been called again.
\<close>

theorem map_created_again_on_return:
  "microtasks (run reject_all first_visit init_page) = [] \<and>
   mapInitialized (run reject_all first_visit init_page) \<and>
   microtasks (run reject_all (first_visit @ revisit) init_page) = [] \<and>
   map_inst (run reject_all (first_visit @ revisit) init_page)
     \<noteq> map_inst (run reject_all first_visit init_page) \<and>
   maps_created (run reject_all first_visit init_page)
     < maps_created (run reject_all (first_visit @ revisit) init_page) \<and>
   loader_calls (run reject_all first_visit init_page)
     < loader_calls (run reject_all (first_visit @ revisit) init_page) \<and>
   1 < maps_created (run reject_all (first_visit @ revisit) init_page)"
proof -
  have run_append: "run parse (es @ fs) p = run parse fs (run parse es p)" for parse es fs p
    by (induction es arbitrary: p) simp_all
  have b: "run reject_all revisit (run reject_all first_visit init_page) =
     init_page\<lparr>currentScreen := MapScreen, map_inst := Some 3, mapElement := Some 1,
       mapInitialized := True, script_tag := True, google_maps := True, gmapsLoaded := True,
       script_requests := 1, loader_calls := 4, maps_created := 4, elements_created := 2\<rparr>"
    unfolding after_first_visit by (simp add: revisit_def page_defs)
  show ?thesis
    unfolding run_append b unfolding after_first_visit by (simp add: init_page_def)
qed

lemma drain_unfold:
  "drain p = (case microtasks p of [] \<Rightarrow> p | t # ts \<Rightarrow> drain (run_task t (p\<lparr>microtasks := ts\<rparr>)))"
proof (cases "microtasks p")
  case Nil
  then show ?thesis by (subst drain.simps) simp
next
  case (Cons t ts)
  then show ?thesis by (subst drain.simps) (simp add: run_microtask_def)
qed

lemma tick_callback_loaded:
  "mapElement p \<noteq> None \<Longrightarrow> \<not> mapInitialized p \<Longrightarrow> google_maps p \<Longrightarrow>
     tick_callback p =
       p\<lparr>loader_calls := Suc (loader_calls p), microtasks := microtasks p @ [InitResume]\<rparr>"
  by (simp add: tick_callback_def loadGoogleMaps_def Let_def)

lemma init_resume_on_map:
  "mapElement p \<noteq> None \<Longrightarrow> currentScreen p = MapScreen \<Longrightarrow>
     init_resume p =
       p\<lparr>map_inst := Some (maps_created p), maps_created := Suc (maps_created p),
         mapMarkers := map (marker_of (maps_created p)) (mapPins p), mapInitialized := True\<rparr>"
  by (auto simp: init_resume_def Let_def run_reactive_def reactive_markers_def reactive_init_def
        reactive_reset_def updateMapPins_def)

lemma leave_map:
  "currentScreen p = MapScreen \<Longrightarrow> s \<noteq> MapScreen \<Longrightarrow>
     click s p = p\<lparr>currentScreen := s, mapInitialized := False, mapElement := None\<rparr>"
  by (simp add: click_def Let_def run_reactive_def reactive_markers_def reactive_init_def
        reactive_reset_def)

lemma enter_map:
  assumes "currentScreen p \<noteq> MapScreen" and "\<not> mapInitialized p"
    and "mapElement p = None"
  shows "click MapScreen p =
     (if map_inst p = None then p else updateMapPins p)
       \<lparr>currentScreen := MapScreen,
        mapElement := Some (elements_created p),
        elements_created := Suc (elements_created p),
        microtasks := microtasks p @ [TickThen, TickThen]\<rparr>"
  using assms
  by (cases "map_inst p")
     (simp_all add: click_def Let_def run_reactive_def reactive_markers_def reactive_init_def
        reactive_reset_def updateMapPins_def)

text \<open>
  C1, amended. A map instance is constructed on entry to the map screen, not once per
  page: for every page on the map screen with the script loaded and no callback
  pending, leaving for another screen and returning calls the loader again, which
  requests no script, and constructs a new map instance (one made after the return);
  \<^verbatim>\<open>map\<close> then holds that instance, the markers are those of the pin list on it, and
  \<^verbatim>\<open>mapInitialized\<close> is set again.
\<close>

theorem return_creates_new_map:
  assumes "currentScreen p = MapScreen" and "s \<noteq> MapScreen"
    and "microtasks p = []" and "google_maps p"
    and "q = drain (click MapScreen (click s p))"
  shows "maps_created p < maps_created q \<and>
         (\<exists>m \<ge> maps_created p. map_inst q = Some m \<and>
            mapMarkers q = map (marker_of m) (mapPins p)) \<and>
         mapInitialized q \<and> microtasks q = [] \<and>
         loader_calls p < loader_calls q \<and>
         script_requests q = script_requests p"
proof -
  define a where "a = click s p"
  define b where "b = click MapScreen a"
  have a: "a = p\<lparr>currentScreen := s, mapInitialized := False, mapElement := None\<rparr>"
    unfolding a_def using assms(1,2) by (rule leave_map)
  have b: "b = (if map_inst a = None then a else updateMapPins a)
       \<lparr>currentScreen := MapScreen,
        mapElement := Some (elements_created a),
        elements_created := Suc (elements_created a),
        microtasks := microtasks a @ [TickThen, TickThen]\<rparr>"
    unfolding b_def using assms(2) by (intro enter_map) (simp_all add: a)
  have bf: "microtasks b = [TickThen, TickThen]" "mapElement b \<noteq> None" "\<not> mapInitialized b"
    "google_maps b" "currentScreen b = MapScreen" "mapPins b = mapPins p"
    "maps_created b = maps_created p" "loader_calls b = loader_calls p"
    "script_requests b = script_requests p"
    using assms(3,4) by (simp_all add: b a updateMapPins_def split: option.split)
  define c where "c = tick_callback (b\<lparr>microtasks := [TickThen]\<rparr>)"
  have c: "c = b\<lparr>loader_calls := Suc (loader_calls b), microtasks := [TickThen, InitResume]\<rparr>"
    unfolding c_def using bf by (subst tick_callback_loaded) simp_all
  define d where "d = tick_callback (c\<lparr>microtasks := [InitResume]\<rparr>)"
  have d: "d = b\<lparr>loader_calls := Suc (Suc (loader_calls b)), microtasks := [InitResume, InitResume]\<rparr>"
    unfolding d_def using bf by (subst tick_callback_loaded) (simp_all add: c)
  define e where "e = init_resume (d\<lparr>microtasks := [InitResume]\<rparr>)"
  have e: "e = b\<lparr>loader_calls := Suc (Suc (loader_calls b)), microtasks := [InitResume],
       map_inst := Some (maps_created b), maps_created := Suc (maps_created b),
       mapMarkers := map (marker_of (maps_created b)) (mapPins b), mapInitialized := True\<rparr>"
    unfolding e_def using bf by (subst init_resume_on_map) (simp_all add: d)
  define f where "f = init_resume (e\<lparr>microtasks := []\<rparr>)"
  have f: "f = b\<lparr>loader_calls := Suc (Suc (loader_calls b)), microtasks := [],
       map_inst := Some (Suc (maps_created b)), maps_created := Suc (Suc (maps_created b)),
       mapMarkers := map (marker_of (Suc (maps_created b))) (mapPins b), mapInitialized := True\<rparr>"
    unfolding f_def using bf by (subst init_resume_on_map) (simp_all add: e)
  have "drain b = drain c"
    by (subst drain_unfold) (simp add: bf c_def)
  also have "\<dots> = drain d"
    by (subst drain_unfold) (simp add: c d_def)
  also have "\<dots> = drain e"
    by (subst drain_unfold) (simp add: d e_def)
  also have "\<dots> = drain f"
    by (subst drain_unfold) (simp add: e f_def)
  also have "\<dots> = f"
    by (subst drain_unfold) (simp add: f)
  finally have "q = f" by (simp add: assms(5) a_def b_def)
  then show ?thesis using bf by (simp add: f)
qed

theorem return_creates_new_map_witness:
  "currentScreen (run reject_all first_visit init_page) = MapScreen \<and>
   microtasks (run reject_all first_visit init_page) = [] \<and>
   google_maps (run reject_all first_visit init_page) \<and>
   maps_created (run reject_all first_visit init_page)
     < maps_created (drain (click MapScreen (click Home (run reject_all first_visit init_page)))) \<and>
   loader_calls (run reject_all first_visit init_page)
     < loader_calls (drain (click MapScreen (click Home (run reject_all first_visit init_page)))) \<and>
   script_requests (drain (click MapScreen (click Home (run reject_all first_visit init_page))))
     = script_requests (run reject_all first_visit init_page)"
proof -
  have h: "currentScreen (run reject_all first_visit init_page) = MapScreen"
      "microtasks (run reject_all first_visit init_page) = []"
      "google_maps (run reject_all first_visit init_page)"
    unfolding after_first_visit by (simp_all add: init_page_def)
  have s: "Home \<noteq> MapScreen" by simp
  show ?thesis
    using return_creates_new_map [OF h(1) s h(2) h(3) refl] h by simp
qed

end
